theory Spec2Isabelle
  imports Complex_Main "HOL-Library.Multiset"
begin

section \<open>The 48-bit quaternion decoder (test-unpack.py)\<close>

text \<open>
  Python integers are unbounded and are modelled as \<open>int\<close>; the operators
  \<open><<\<close>, \<open>>>\<close>, \<open>|\<close> and \<open>&\<close> of Python act on the infinite two's complement
  representation, exactly as \<open>push_bit\<close>, \<open>drop_bit\<close>, \<open>OR\<close> and \<open>AND\<close> do on
  \<open>int\<close>. In this section Python floats are idealised as real numbers: \<open>math.pi\<close>
  is \<open>pi\<close>, \<open>math.sqrt\<close> is the real square root on its domain, and the arithmetic
  is exact; the next section gives the same lines with every operation rounded to a
  double.
  The two \<open>print\<close> calls of the decoder only report intermediate values and are left
  out. Exceptions are values of the type \<open>error\<close>.
\<close>

unbundle bit_operations_syntax

datatype error = ValueError | IndexError | OverflowError

definition bind_err :: "error + 'a \<Rightarrow> ('a \<Rightarrow> error + 'b) \<Rightarrow> error + 'b" where
  "bind_err r f = (case r of Inl e \<Rightarrow> Inl e | Inr v \<Rightarrow> f v)"

text \<open>\<open>math.sqrt\<close> raises \<open>ValueError\<close> (math domain error) below zero.\<close>

definition math_sqrt :: "real \<Rightarrow> error + real" where
  "math_sqrt v = (if v < 0 then Inl ValueError else Inr (sqrt v))"

text \<open>
  \<open>list.insert(i, v)\<close>: a negative index counts from the end, and the position is
  clipped to the list, so inserting at \<open>len\<close> appends.
\<close>

definition list_insert :: "'a list \<Rightarrow> int \<Rightarrow> 'a \<Rightarrow> 'a list" where
  "list_insert xs i v =
     (let n = int (length xs);
          j = (if i < 0 then max (i + n) 0 else min i n)
      in take (nat j) xs @ v # drop (nat j) xs)"

text \<open>\<open>xs[i]\<close>: raises \<open>IndexError\<close> outside the list.\<close>

definition list_index :: "'a list \<Rightarrow> int \<Rightarrow> error + 'a" where
  "list_index xs i =
     (let n = int (length xs);
          j = (if i < 0 then i + n else i)
      in if j < 0 \<or> n \<le> j then Inl IndexError else Inr (xs ! nat j))"

subsection \<open>Constants and the affine expansion (lines 4 to 15)\<close>

definition SCALE :: int where
  "SCALE = 0x7FFF"

definition PI_QUARTER :: real where
  "PI_QUARTER = pi / 4"

definition PI_HALF :: real where
  "PI_HALF = pi / 2"

definition expand_float :: "int \<Rightarrow> real" where
  "expand_float i = of_int i * (PI_HALF / of_int SCALE) - PI_QUARTER"

subsection \<open>The decoder (lines 18 to 42), one definition per local variable\<close>

text \<open>Line 26: \<open>pack = (z << 32) | (y << 16) | x\<close>.\<close>

definition pack_of :: "int \<Rightarrow> int \<Rightarrow> int \<Rightarrow> int" where
  "pack_of x y z = (push_bit 32 z OR push_bit 16 y) OR x"

text \<open>Lines 28 to 30: the three stored fields, expanded.\<close>

definition q1_of :: "int \<Rightarrow> real" where
  "q1_of pack = expand_float (drop_bit 3 pack AND 0x7FFF)"

definition q2_of :: "int \<Rightarrow> real" where
  "q2_of pack = expand_float (drop_bit 18 pack AND 0x7FFF)"

definition q3_of :: "int \<Rightarrow> real" where
  "q3_of pack = expand_float (drop_bit 33 pack AND 0x7FFF)"

text \<open>
  Line 33: \<open>max(1.0 - (q1 * q1 + q2 * q2 + q3 * q3), 0.0)\<close>, the argument later given
  to \<open>math.sqrt\<close>; the inner sum has a name of its own.
\<close>

definition squared_sum_of :: "int \<Rightarrow> real" where
  "squared_sum_of pack =
     (let q1 = q1_of pack; q2 = q2_of pack; q3 = q3_of pack
      in q1 * q1 + q2 * q2 + q3 * q3)"

definition sqrt_argument :: "int \<Rightarrow> real" where
  "sqrt_argument pack = max (1 - squared_sum_of pack) 0"

text \<open>Line 34: \<open>max_component = math.sqrt(max_component)\<close>.\<close>

definition max_component_of :: "int \<Rightarrow> error + real" where
  "max_component_of pack = math_sqrt (sqrt_argument pack)"

text \<open>Line 35: \<open>missing_component = pack & 0B0011\<close>.\<close>

definition missing_component_of :: "int \<Rightarrow> int" where
  "missing_component_of pack = pack AND 3"

text \<open>Lines 32 and 36: the list \<open>values\<close> after the insertion, before the rotation.\<close>

definition values_of :: "int \<Rightarrow> error + real list" where
  "values_of pack =
     bind_err (max_component_of pack) (\<lambda>max_component.
       Inr (list_insert [q1_of pack, q2_of pack, q3_of pack]
              (missing_component_of pack) max_component))"

text \<open>Line 37: \<open>is_negative = (pack & 0B0100) != 0\<close>.\<close>

definition is_negative_of :: "int \<Rightarrow> bool" where
  "is_negative_of pack = (pack AND 4 \<noteq> 0)"

text \<open>Lines 38 to 42: the rotated list, negated when the sign bit is set.\<close>

definition rotate_values :: "real list \<Rightarrow> error + real list" where
  "rotate_values vs =
     bind_err (list_index vs 3) (\<lambda>a.
     bind_err (list_index vs 0) (\<lambda>b.
     bind_err (list_index vs 1) (\<lambda>c.
     bind_err (list_index vs 2) (\<lambda>d. Inr [a, b, c, d]))))"

definition negate_values :: "real list \<Rightarrow> error + real list" where
  "negate_values vs =
     bind_err (list_index vs 3) (\<lambda>a.
     bind_err (list_index vs 0) (\<lambda>b.
     bind_err (list_index vs 1) (\<lambda>c.
     bind_err (list_index vs 2) (\<lambda>d. Inr [- a, - b, - c, - d]))))"

definition unpack_48bit_quaternion :: "int \<Rightarrow> int \<Rightarrow> int \<Rightarrow> error + real list" where
  "unpack_48bit_quaternion x y z =
     (let pack = pack_of x y z
      in bind_err (values_of pack) (\<lambda>values.
           if \<not> is_negative_of pack then rotate_values values
           else negate_values values))"

section \<open>The decoder in double precision\<close>

text \<open>
  A Python float is an IEEE 754 binary64 number. A finite double is modelled as the real
  number it denotes, so the two zeros are one value. Every arithmetic operation on
  floats, and \<open>math.sqrt\<close>, returns the exact result rounded to the nearest double, ties
  going to the even significand; \<open>fl\<close> is that rounding. Doubles have 53 significant
  bits, and below \<open>2\<^sup>-\<^sup>1\<^sup>0\<^sup>2\<^sup>2\<close> a fixed spacing of \<open>2\<^sup>-\<^sup>1\<^sup>0\<^sup>7\<^sup>4\<close>. Infinities and
  NaN are not represented: \<open>fl\<close> is the rounding of results below \<open>2\<^sup>1\<^sup>0\<^sup>2\<^sup>4\<close> in
  magnitude. The decoder stays below that bound: the only value of unbounded size is the
  integer given to \<open>expand_float\<close>, whose conversion to a float raises
  \<open>OverflowError\<close> at the bound, and a finite double times the scale factor, less a
  quarter of \<open>math.pi\<close>, is smaller still; the expanded fields are below 1 in magnitude.
\<close>

definition round_half_even :: "real \<Rightarrow> int" where
  "round_half_even y =
     (let f = \<lfloor>y\<rfloor>; r = y - of_int f
      in if r < 1 / 2 then f
         else if 1 / 2 < r then f + 1
         else if even f then f else f + 1)"

definition two_to :: "int \<Rightarrow> real" where
  "two_to e = (if 0 \<le> e then 2 ^ nat e else 1 / 2 ^ nat (- e))"

definition binade :: "real \<Rightarrow> int" where
  "binade x = \<lfloor>log 2 \<bar>x\<bar>\<rfloor>"

definition fl :: "real \<Rightarrow> real" where
  "fl x =
     (if x = 0 then 0
      else let q = two_to (max (binade x - 52) (- 1074))
           in of_int (round_half_even (x / q)) * q)"

text \<open>\<open>math.pi\<close> is the double \<open>0x1.921fb54442d18p+1\<close>.\<close>

definition math_pi :: real where
  "math_pi = 884279719003555 / 2 ^ 48"

text \<open>Lines 5 and 6: \<open>math.pi / 4.0\<close> and \<open>math.pi / 2.0\<close>.\<close>

definition PI_QUARTER_f64 :: real where
  "PI_QUARTER_f64 = fl (math_pi / 4)"

definition PI_HALF_f64 :: real where
  "PI_HALF_f64 = fl (math_pi / 2)"

text \<open>
  An \<open>int\<close> operand of a float operation is converted to the nearest double first;
  the conversion raises \<open>OverflowError\<close> when the integer is too large.
\<close>

definition int_to_float :: "int \<Rightarrow> error + real" where
  "int_to_float i =
     (let r = fl (of_int i)
      in if 2 ^ 1024 \<le> \<bar>r\<bar> then Inl OverflowError else Inr r)"

text \<open>Line 15: \<open>i * (PI_HALF / SCALE) - PI_QUARTER\<close>, three rounded operations.\<close>

definition expand_float_f64 :: "int \<Rightarrow> error + real" where
  "expand_float_f64 i =
     bind_err (int_to_float SCALE) (\<lambda>scale.
     bind_err (int_to_float i) (\<lambda>f.
       Inr (fl (fl (f * fl (PI_HALF_f64 / scale)) - PI_QUARTER_f64))))"

text \<open>
  Line 33: \<open>max(1.0 - (q1 * q1 + q2 * q2 + q3 * q3), 0.0)\<close>; the sum associates to
  the left.
\<close>

definition sqrt_argument_f64 :: "real \<Rightarrow> real \<Rightarrow> real \<Rightarrow> real" where
  "sqrt_argument_f64 q1 q2 q3 =
     max (fl (1 - fl (fl (fl (q1 * q1) + fl (q2 * q2)) + fl (q3 * q3)))) 0"

text \<open>Line 34: \<open>math.sqrt\<close> is correctly rounded, and raises below zero.\<close>

definition math_sqrt_f64 :: "real \<Rightarrow> error + real" where
  "math_sqrt_f64 v = (if v < 0 then Inl ValueError else Inr (fl (sqrt v)))"

text \<open>Lines 26 to 42. Negating a double is exact.\<close>

definition unpack_48bit_quaternion_f64 :: "int \<Rightarrow> int \<Rightarrow> int \<Rightarrow> error + real list" where
  "unpack_48bit_quaternion_f64 x y z =
     (let pack = pack_of x y z
      in bind_err (expand_float_f64 (drop_bit 3 pack AND 0x7FFF)) (\<lambda>q1.
         bind_err (expand_float_f64 (drop_bit 18 pack AND 0x7FFF)) (\<lambda>q2.
         bind_err (expand_float_f64 (drop_bit 33 pack AND 0x7FFF)) (\<lambda>q3.
         bind_err (math_sqrt_f64 (sqrt_argument_f64 q1 q2 q3)) (\<lambda>max_component.
           let values = list_insert [q1, q2, q3] (missing_component_of pack) max_component
           in if \<not> is_negative_of pack then rotate_values values
              else negate_values values)))))"

section \<open>The shader conversion wrapper (web/tools/bnsh/bnsh2glsl.py)\<close>






text \<open>
  The fields are: \<open>Path(p).absolute()\<close>; \<open>Path.exists\<close> before the program is
  launched; \<open>Path.suffix.lower()\<close>, a pure string function; the string of
  \<open>BNSH_TO_GLSL_EXE\<close>; whether a \<open>print\<close> of a message succeeds after the events so
  far (it raises, for instance, \<open>UnicodeEncodeError\<close> on a standard output that cannot
  encode the text); the outcome of launching a command line; \<open>Path.exists\<close> after the
  program has run; and the files \<open>glob("*.glsl")\<close> lists in a directory afterwards.
\<close>











section \<open>Auxiliary facts\<close>

subsection \<open>Masks as remainders, bounds on \<open>pi\<close>\<close>

lemma and_3_mod: "(p::int) AND 3 = p mod 4"
  using take_bit_eq_mask[of 2 p] by (simp add: mask_eq_exp_minus_1 take_bit_eq_mod)

lemma and_7FFF_mod: "(p::int) AND 0x7FFF = p mod 32768"
  using take_bit_eq_mask[of 15 p] by (simp add: mask_eq_exp_minus_1 take_bit_eq_mod)

lemma and_4_bit: "((p::int) AND 4 \<noteq> 0) = bit p 2"
  using and_exp_eq_0_iff_not_bit[of p 2] by simp

lemma pi_ge_3: "3 \<le> pi"
proof -
  have "sin (pi / 6) \<le> pi / 6"
    by (rule sin_x_le_x) simp
  then show ?thesis
    by (simp add: sin_30)
qed

lemma field_bounds: "0 \<le> (p::int) AND 0x7FFF \<and> p AND 0x7FFF \<le> 32767"
  by (simp add: and_7FFF_mod)

lemma missing_component_cases:
  "missing_component_of p = 0 \<or> missing_component_of p = 1 \<or>
   missing_component_of p = 2 \<or> missing_component_of p = 3"
proof -
  have "0 \<le> p mod 4" "p mod 4 < 4" by simp_all
  then show ?thesis unfolding missing_component_of_def and_3_mod by linarith
qed

subsection \<open>The expansion\<close>

lemma expand_float_alt: "expand_float i = (pi / 4) * (2 * of_int i / 32767 - 1)"
  by (simp add: expand_float_def PI_HALF_def PI_QUARTER_def SCALE_def field_simps)

lemma expand_float_bounds:
  assumes "0 \<le> i" "i \<le> 32767"
  shows "- (pi / 4) \<le> expand_float i" "expand_float i \<le> pi / 4"
proof -
  have a: "- 1 \<le> 2 * real_of_int i / 32767 - 1" using assms by simp
  have b: "2 * real_of_int i / 32767 - 1 \<le> 1" using assms by simp
  have "(pi / 4) * (- 1) \<le> (pi / 4) * (2 * of_int i / 32767 - 1)"
    by (rule mult_left_mono[OF a]) simp
  then show "- (pi / 4) \<le> expand_float i" by (simp add: expand_float_alt)
  have "(pi / 4) * (2 * of_int i / 32767 - 1) \<le> (pi / 4) * 1"
    by (rule mult_left_mono[OF b]) simp
  then show "expand_float i \<le> pi / 4" by (simp add: expand_float_alt)
qed

subsection \<open>The stages of the decoder in closed form\<close>

lemma sqrt_argument_nonneg: "0 \<le> sqrt_argument p"
  by (simp add: sqrt_argument_def)

lemma sqrt_argument_alt:
  "sqrt_argument p = (if 1 < squared_sum_of p then 0 else 1 - squared_sum_of p)"
  by (simp add: sqrt_argument_def max_def)

lemma max_component_of_eq: "max_component_of p = Inr (sqrt (sqrt_argument p))"
  using sqrt_argument_nonneg[of p] by (simp add: max_component_of_def math_sqrt_def)

lemma values_of_eq:
  "values_of p = Inr
     (if missing_component_of p = 0 then [sqrt (sqrt_argument p), q1_of p, q2_of p, q3_of p]
      else if missing_component_of p = 1 then [q1_of p, sqrt (sqrt_argument p), q2_of p, q3_of p]
      else if missing_component_of p = 2 then [q1_of p, q2_of p, sqrt (sqrt_argument p), q3_of p]
      else [q1_of p, q2_of p, q3_of p, sqrt (sqrt_argument p)])"
  using missing_component_cases[of p]
  by (auto simp add: values_of_def bind_err_def max_component_of_eq list_insert_def)

lemma rotate_values4: "rotate_values [a, b, c, d] = Inr [d, a, b, c]"
  by (simp add: rotate_values_def list_index_def bind_err_def)

lemma negate_values4: "negate_values [a, b, c, d] = Inr [- d, - a, - b, - c]"
  by (simp add: negate_values_def list_index_def bind_err_def)

subsection \<open>The fields of the packs of \<open>(42, 61442, 62196)\<close> and \<open>(46, 61442, 62196)\<close>\<close>

lemma known_fields:
  "drop_bit 3 (pack_of 42 61442 62196) AND 0x7FFF = 16389"
  "drop_bit 18 (pack_of 42 61442 62196) AND 0x7FFF = 15360"
  "drop_bit 33 (pack_of 42 61442 62196) AND 0x7FFF = 31098"
  "missing_component_of (pack_of 42 61442 62196) = 2"
  "is_negative_of (pack_of 42 61442 62196) = False"
  by (simp_all add: pack_of_def missing_component_of_def is_negative_of_def)

lemma known_fields_negative:
  "drop_bit 3 (pack_of 46 61442 62196) AND 0x7FFF = 16389"
  "drop_bit 18 (pack_of 46 61442 62196) AND 0x7FFF = 15360"
  "drop_bit 33 (pack_of 46 61442 62196) AND 0x7FFF = 31098"
  "missing_component_of (pack_of 46 61442 62196) = 2"
  "is_negative_of (pack_of 46 61442 62196) = True"
  by (simp_all add: pack_of_def missing_component_of_def is_negative_of_def)


subsection \<open>The result in closed form, and its norm\<close>

lemma unpack_eq:
  "unpack_48bit_quaternion x y z =
     (let p = pack_of x y z; m = sqrt (sqrt_argument p);
          a = q1_of p; b = q2_of p; c = q3_of p;
          s = (if is_negative_of p then - 1 else 1)
      in Inr (if missing_component_of p = 0 then [s * c, s * m, s * a, s * b]
         else if missing_component_of p = 1 then [s * c, s * a, s * m, s * b]
         else if missing_component_of p = 2 then [s * c, s * a, s * b, s * m]
         else [s * m, s * a, s * b, s * c]))"
  by (simp add: unpack_48bit_quaternion_def Let_def values_of_eq bind_err_def
      rotate_values4 negate_values4)

lemma unit_norm_aux:
  assumes "squared_sum_of (pack_of x y z) \<le> 1"
  shows "\<exists>a b c d. unpack_48bit_quaternion x y z = Inr [a, b, c, d] \<and>
           a\<^sup>2 + b\<^sup>2 + c\<^sup>2 + d\<^sup>2 = 1"
proof -
  let ?p = "pack_of x y z"
  have m: "(sqrt (sqrt_argument ?p))\<^sup>2 = 1 - squared_sum_of ?p"
    using assms by (simp add: sqrt_argument_alt)
  show ?thesis
    using m by (auto simp add: unpack_eq Let_def squared_sum_of_def power2_eq_square)
qed

lemma pi_squared_less_16: "pi\<^sup>2 < 16"
proof -
  have "pi * pi < 4 * 4"
    using pi_less_4 pi_gt_zero by (intro mult_strict_mono) simp_all
  then show ?thesis by (simp add: power2_eq_square)
qed

lemma known_squared_sum:
  "squared_sum_of (pack_of 42 61442 62196) = pi\<^sup>2 / 16 * (870256371 / 1073676289)"
  "squared_sum_of (pack_of 46 61442 62196) = pi\<^sup>2 / 16 * (870256371 / 1073676289)"
  by (simp_all add: squared_sum_of_def q1_of_def q2_of_def q3_of_def known_fields
      known_fields_negative expand_float_alt power2_eq_square field_simps)

lemma known_squared_sum_le:
  "squared_sum_of (pack_of 42 61442 62196) \<le> 1"
  "squared_sum_of (pack_of 46 61442 62196) \<le> 1"
  using pi_squared_less_16 by (simp_all add: known_squared_sum)

lemma zero_fields:
  "drop_bit 3 (pack_of 0 0 0) AND 0x7FFF = 0"
  "drop_bit 18 (pack_of 0 0 0) AND 0x7FFF = 0"
  "drop_bit 33 (pack_of 0 0 0) AND 0x7FFF = 0"
  by (simp_all add: pack_of_def)

lemma zero_squared_sum: "1 < squared_sum_of (pack_of 0 0 0)"
proof -
  have "3 * 3 \<le> pi * pi"
    using pi_ge_3 by (intro mult_mono) simp_all
  then have "9 \<le> pi\<^sup>2" by (simp add: power2_eq_square)
  moreover have "squared_sum_of (pack_of 0 0 0) = 3 * pi\<^sup>2 / 16"
    by (simp add: squared_sum_of_def q1_of_def q2_of_def q3_of_def zero_fields
        expand_float_alt power2_eq_square)
  ultimately show ?thesis by simp
qed

subsection \<open>The low three bits of the pack\<close>

lemma bit_4_iff: "bit (4::int) n \<longleftrightarrow> n = 2"
  using bit_exp_iff[where ?'a = int, of 2 n] by simp

lemma bit_3_iff: "bit (3::int) n \<longleftrightarrow> n < 2"
  using bit_mask_iff[where ?'a = int, of 2 n] by (simp add: mask_eq_exp_minus_1)

lemma bit_pack_low: "n < 16 \<Longrightarrow> bit (pack_of x y z) n = bit x n"
  by (simp add: pack_of_def bit_simps)

lemma pack_set_bit: "pack_of (x OR k) y z = pack_of x y z OR k"
  by (simp add: pack_of_def ac_simps)

lemma pack_clear_bits:
  assumes "\<And>n. bit k n \<Longrightarrow> n < 16"
  shows "pack_of (x AND NOT k) y z = pack_of x y z AND NOT k"
  by (rule bit_eqI) (auto simp add: pack_of_def bit_simps dest: assms)

lemma pack_clear_bit2: "pack_of (x AND NOT 4) y z = pack_of x y z AND NOT 4"
  by (rule pack_clear_bits) (simp add: bit_4_iff)

lemma pack_clear_low2: "pack_of (x AND NOT 3) y z = pack_of x y z AND NOT 3"
  by (rule pack_clear_bits) (simp add: bit_3_iff)

lemma fields_from_high_bits:
  "q1_of p = expand_float (drop_bit 3 p AND 0x7FFF)"
  "q2_of p = expand_float (drop_bit 15 (drop_bit 3 p) AND 0x7FFF)"
  "q3_of p = expand_float (drop_bit 30 (drop_bit 3 p) AND 0x7FFF)"
  by (simp_all add: q1_of_def q2_of_def q3_of_def)

lemma high_bits_determine:
  assumes "drop_bit 3 p = drop_bit 3 p'"
  shows "q1_of p = q1_of p'" "q2_of p = q2_of p'" "q3_of p = q3_of p'"
    "squared_sum_of p = squared_sum_of p'" "sqrt_argument p = sqrt_argument p'"
    "max_component_of p = max_component_of p'"
  using assms by (simp_all add: fields_from_high_bits squared_sum_of_def sqrt_argument_def max_component_of_def)

lemma drop3_set: 
  assumes "\<And>n. bit k n \<Longrightarrow> n < 3"
  shows "drop_bit 3 (p OR k) = drop_bit 3 (p::int)"
  by (rule bit_eqI) (auto simp add: bit_simps dest: assms)

lemma drop3_clear: 
  assumes "\<And>n. bit k n \<Longrightarrow> n < 3"
  shows "drop_bit 3 (p AND NOT k) = drop_bit 3 (p::int)"
  by (rule bit_eqI) (auto simp add: bit_simps dest: assms)

lemma missing_set_bit2: "missing_component_of (p OR 4) = missing_component_of p"
  unfolding missing_component_of_def by (rule bit_eqI) (auto simp add: bit_simps bit_4_iff bit_3_iff)

lemma missing_clear_bit2: "missing_component_of (p AND NOT 4) = missing_component_of p"
  unfolding missing_component_of_def by (rule bit_eqI) (auto simp add: bit_simps bit_4_iff bit_3_iff)

lemma negative_set_bit2: "is_negative_of (p OR 4)"
  by (simp add: is_negative_of_def and_4_bit bit_simps bit_4_iff)

lemma negative_clear_bit2: "\<not> is_negative_of (p AND NOT 4)"
  by (simp add: is_negative_of_def and_4_bit bit_simps bit_4_iff)

lemma unpack_of_pack:
  assumes "pack_of x y z = p"
  shows "unpack_48bit_quaternion x y z =
     Inr (map (\<lambda>v. if is_negative_of p then - v else v)
       (if missing_component_of p = 0 then [q3_of p, sqrt (sqrt_argument p), q1_of p, q2_of p]
        else if missing_component_of p = 1 then [q3_of p, q1_of p, sqrt (sqrt_argument p), q2_of p]
        else if missing_component_of p = 2 then [q3_of p, q1_of p, q2_of p, sqrt (sqrt_argument p)]
        else [sqrt (sqrt_argument p), q1_of p, q2_of p, q3_of p]))"
  unfolding assms[symmetric] by (simp add: unpack_eq Let_def)

lemma bit_low2:
  assumes "k = 0 \<or> k = 1 \<or> k = 2 \<or> k = (3::int)" "bit k n"
  shows "n < 2"
proof -
  have "bit (2::int) n \<longleftrightarrow> n = 1"
    using bit_exp_iff[where ?'a = int, of 1 n] by simp
  then show ?thesis using assms by (auto simp add: bit_3_iff bit_1_iff)
qed

lemma missing_low2:
  assumes "k = 0 \<or> k = 1 \<or> k = 2 \<or> k = (3::int)"
  shows "missing_component_of ((p AND NOT 3) OR k) = k"
  unfolding missing_component_of_def
  by (rule bit_eqI) (auto simp add: bit_simps bit_3_iff dest: bit_low2[OF assms])

lemma values_low2:
  assumes "k = 0 \<or> k = 1 \<or> k = 2 \<or> k = (3::int)"
  shows "values_of ((p AND NOT 3) OR k) =
     Inr (list_insert [q1_of p, q2_of p, q3_of p] k (sqrt (sqrt_argument p)))"
proof -
  define q where "q = (p AND NOT 3) OR k"
  have a: "\<And>n. bit (3::int) n \<Longrightarrow> n < 3" by (simp add: bit_3_iff)
  have b: "\<And>n. bit k n \<Longrightarrow> n < 3" using bit_low2[OF assms] by fastforce
  have "drop_bit 3 q = drop_bit 3 (p AND NOT 3)" unfolding q_def by (rule drop3_set[OF b])
  also have "\<dots> = drop_bit 3 p" by (rule drop3_clear[OF a])
  finally have d: "drop_bit 3 q = drop_bit 3 p" .
  have m: "missing_component_of q = k" unfolding q_def by (rule missing_low2[OF assms])
  have "values_of q = Inr (list_insert [q1_of p, q2_of p, q3_of p] k (sqrt (sqrt_argument p)))"
    by (simp add: values_of_def bind_err_def max_component_of_eq m high_bits_determine[OF d])
  then show ?thesis unfolding q_def .
qed

lemma pack_low2: "pack_of ((x AND NOT 3) OR k) y z = (pack_of x y z AND NOT 3) OR k"
  unfolding pack_set_bit pack_clear_low2 ..

lemma known_fields_45:
  "drop_bit 3 (pack_of 45 61442 62196) = drop_bit 3 (pack_of 42 61442 62196)"
  "missing_component_of (pack_of 45 61442 62196) = 1"
  "is_negative_of (pack_of 45 61442 62196) = True"
  by (simp_all add: pack_of_def missing_component_of_def is_negative_of_def)

subsection \<open>Rounding to a double\<close>

lemma round_half_even_eqI:
  assumes "of_int n - 1 / 2 < y" "y < of_int n + 1 / 2"
  shows "round_half_even y = n"
proof (cases "of_int n \<le> y")
  case True
  then have "\<lfloor>y\<rfloor> = n" using assms by (intro floor_unique) auto
  then show ?thesis using assms by (simp add: round_half_even_def Let_def)
next
  case False
  then have "\<lfloor>y\<rfloor> = n - 1" using assms by (intro floor_unique) auto
  then show ?thesis using assms False by (simp add: round_half_even_def Let_def)
qed

lemma binade_eqI:
  assumes "2 powr of_int e \<le> \<bar>x\<bar>" "\<bar>x\<bar> < 2 powr (of_int e + 1)"
  shows "binade x = e"
proof -
  have "0 < \<bar>x\<bar>" using assms(1) powr_gt_zero[of 2 "of_int e"] by linarith
  then show ?thesis
    unfolding binade_def using assms by (simp add: floor_log_eq_powr_iff)
qed

lemma fl_small_eqI:
  fixes k :: nat and n :: int
  assumes "r = of_int n / 2 ^ (k + 52)"
    and "k \<le> 1022"
    and "1 / 2 ^ k \<le> \<bar>x\<bar>" and "\<bar>x\<bar> < 2 / 2 ^ k"
    and "of_int n - 1 / 2 < x * 2 ^ (k + 52)" and "x * 2 ^ (k + 52) < of_int n + 1 / 2"
  shows "fl x = r"
proof -
  have p: "(2::real) powr of_int (- int k) = 1 / 2 ^ k"
    by (simp add: powr_minus_divide powr_realpow)
  have "(2::real) powr (of_int (- int k) + 1) = 2 powr of_int (- int k) * 2 powr 1"
    by (rule powr_add)
  then have p': "(2::real) powr (of_int (- int k) + 1) = 2 / 2 ^ k"
    by (simp only: p) simp
  have b: "binade x = - int k"
    by (rule binade_eqI) (use assms p p' in simp_all)
  have "(0::real) < 1 / 2 ^ k" by simp
  then have "0 < \<bar>x\<bar>" using assms(3) by linarith
  then have nz: "x \<noteq> 0" by simp
  have q: "two_to (max (binade x - 52) (- 1074)) = 1 / 2 ^ (k + 52)"
    using assms(2) by (simp add: b two_to_def max_def nat_add_distrib)
  have "round_half_even (x / (1 / 2 ^ (k + 52))) = n"
    by (rule round_half_even_eqI) (use assms in simp_all)
  then show ?thesis
    using nz by (simp add: fl_def Let_def q assms(1))
qed

lemma fl_large_eqI:
  fixes j :: nat and n :: int
  assumes "r = of_int n / 2 ^ (52 - j)"
    and "j \<le> 52"
    and "2 ^ j \<le> \<bar>x\<bar>" and "\<bar>x\<bar> < 2 * 2 ^ j"
    and "of_int n - 1 / 2 < x * 2 ^ (52 - j)" and "x * 2 ^ (52 - j) < of_int n + 1 / 2"
  shows "fl x = r"
proof -
  have p: "(2::real) powr of_int (int j) = 2 ^ j"
    by (simp add: powr_realpow)
  have p': "(2::real) powr (of_int (int j) + 1) = 2 * 2 ^ j"
    by (simp add: powr_add powr_realpow)
  have b: "binade x = int j"
    by (rule binade_eqI) (use assms p p' in simp_all)
  have "(0::real) < 2 ^ j" by simp
  then have "0 < \<bar>x\<bar>" using assms(3) by linarith
  then have nz: "x \<noteq> 0" by simp
  have q: "two_to (max (binade x - 52) (- 1074)) = 1 / 2 ^ (52 - j)"
    using assms(2) by (simp add: b two_to_def max_def nat_diff_distrib)
  have "round_half_even (x / (1 / 2 ^ (52 - j))) = n"
    by (rule round_half_even_eqI) (use assms in simp_all)
  then show ?thesis
    using nz by (simp add: fl_def Let_def q assms(1))
qed

lemma fl_sqrt_eqI:
  fixes k :: nat and n :: int
  assumes "r = of_int n / 2 ^ (k + 52)"
    and "k \<le> 1022" and "0 < n"
    and "(1 / 2 ^ k)\<^sup>2 \<le> v" and "v < (2 / 2 ^ k)\<^sup>2"
    and "(of_int n - 1 / 2)\<^sup>2 < v * (2 ^ (k + 52))\<^sup>2"
    and "v * (2 ^ (k + 52))\<^sup>2 < (of_int n + 1 / 2)\<^sup>2"
  shows "fl (sqrt v) = r"
proof (rule fl_small_eqI[OF assms(1) assms(2)])
  have v0: "0 \<le> v" using assms(4) by (meson order_trans zero_le_power2)
  have s0: "0 \<le> sqrt v" using v0 by simp
  have "1 / 2 ^ k \<le> sqrt v" by (rule real_le_rsqrt) (rule assms(4))
  then show "1 / 2 ^ k \<le> \<bar>sqrt v\<bar>" using s0 by simp
  have "sqrt v < 2 / 2 ^ k" by (rule real_less_lsqrt) (use assms(5) in simp_all)
  then show "\<bar>sqrt v\<bar> < 2 / 2 ^ k" using s0 by simp
  have e: "sqrt v * 2 ^ (k + 52) = sqrt (v * (2 ^ (k + 52))\<^sup>2)"
    by (simp add: real_sqrt_mult)
  have "of_int n - 1 / 2 < sqrt (v * (2 ^ (k + 52))\<^sup>2)"
    by (rule real_less_rsqrt) (rule assms(6))
  then show "of_int n - 1 / 2 < sqrt v * 2 ^ (k + 52)" by (simp only: e)
  have "sqrt (v * (2 ^ (k + 52))\<^sup>2) < of_int n + 1 / 2"
    by (rule real_less_lsqrt) (use assms(3) assms(7) in simp_all)
  then show "sqrt v * 2 ^ (k + 52) < of_int n + 1 / 2" by (simp only: e)
qed

subsection \<open>The double-precision run on \<open>(42, 61442, 62196)\<close>\<close>

lemma bind_err_Inr: "bind_err (Inr v) f = f v"
  by (simp add: bind_err_def)

lemma int_to_float_exact:
  fixes j :: nat
  assumes "j \<le> 52" "2 ^ j \<le> i" "i < 2 * 2 ^ j"
  shows "int_to_float i = Inr (of_int i)"
proof -
  have a: "(2::real) ^ j \<le> of_int i"
    using assms(2) by (metis of_int_le_iff of_int_numeral of_int_power)
  have b: "real_of_int i < 2 * 2 ^ j"
    using assms(3) by (metis of_int_less_iff of_int_numeral of_int_power of_int_mult)
  have i0: "0 \<le> real_of_int i" using a by (meson order_trans zero_le_numeral zero_le_power)
  have f: "fl (of_int i) = of_int i"
  proof (rule fl_large_eqI[where j = j and n = "i * 2 ^ (52 - j)"])
    show "real_of_int i = real_of_int (i * 2 ^ (52 - j)) / 2 ^ (52 - j)" by simp
    show "j \<le> 52" by (rule assms(1))
    show "2 ^ j \<le> \<bar>real_of_int i\<bar>" using a i0 by simp
    show "\<bar>real_of_int i\<bar> < 2 * 2 ^ j" using b i0 by simp
    show "real_of_int (i * 2 ^ (52 - j)) - 1 / 2 < real_of_int i * 2 ^ (52 - j)" by simp
    show "real_of_int i * 2 ^ (52 - j) < real_of_int (i * 2 ^ (52 - j)) + 1 / 2" by simp
  qed
  have "real_of_int i < 2 ^ 1024"
  proof -
    have "(2::real) * 2 ^ j \<le> 2 ^ 1024"
      using assms(1) power_increasing[of "Suc j" 1024 "2::real"] by simp
    with b show ?thesis by linarith
  qed
  then show ?thesis using i0 by (simp add: int_to_float_def f Let_def)
qed

lemma known_vector_f64:
  "unpack_48bit_quaternion_f64 42 61442 62196 =
     Inr [6353579601563920 / 2 ^ 53, 4863686882463744 / 2 ^ 64,
          - (7070999324150368 / 2 ^ 57), 6369171869617580 / 2 ^ 53]"
proof -
  define PH :: real where "PH = 7074237752028440 / 2 ^ 52"
  define PQ :: real where "PQ = 7074237752028440 / 2 ^ 53"
  define C :: real where "C = 7074453647220311 / 2 ^ 67"
  define P1 :: real where "P1 = 7076612599139018 / 2 ^ 53"
  define P2 :: real where "P2 = 6632300294269042 / 2 ^ 53"
  define P3 :: real where "P3 = 6713908676796180 / 2 ^ 52"
  define Q1 :: real where "Q1 = 4863686882463744 / 2 ^ 64"
  define Q2 :: real where "Q2 = - (7070999324150368 / 2 ^ 57)"
  define Q3 :: real where "Q3 = 6353579601563920 / 2 ^ 53"
  define S1 :: real where "S1 = 5252565069702152 / 2 ^ 76"
  define S2 :: real where "S2 = 5551007591601538 / 2 ^ 61"
  define S3 :: real where "S3 = 8963490783699766 / 2 ^ 54"
  define T :: real where "T = 5551167887166409 / 2 ^ 61"
  define SS :: real where "SS = 9006859282818254 / 2 ^ 54"
  define V :: real where "V = 4503769613331865 / 2 ^ 53"
  define M :: real where "M = 6369171869617580 / 2 ^ 53"
  have ph: "PI_HALF_f64 = PH"
    unfolding PI_HALF_f64_def math_pi_def PH_def
    by (rule fl_small_eqI[where k = 0 and n = "7074237752028440"]) simp_all
  have pq: "PI_QUARTER_f64 = PQ"
    unfolding PI_QUARTER_f64_def math_pi_def PQ_def
    by (rule fl_small_eqI[where k = 1 and n = "7074237752028440"]) simp_all
  have c: "fl (PH / 32767) = C"
    unfolding PH_def C_def
    by (rule fl_small_eqI[where k = 15 and n = "7074453647220311"]) simp_all
  have p1: "fl (16389 * C) = P1"
    unfolding C_def P1_def
    by (rule fl_small_eqI[where k = 1 and n = "7076612599139018"]) simp_all
  have q1: "fl (P1 - PQ) = Q1"
    unfolding P1_def PQ_def Q1_def
    by (rule fl_small_eqI[where k = 12 and n = "4863686882463744"]) simp_all
  have p2: "fl (15360 * C) = P2"
    unfolding C_def P2_def
    by (rule fl_small_eqI[where k = 1 and n = "6632300294269042"]) simp_all
  have q2: "fl (P2 - PQ) = Q2"
    unfolding P2_def PQ_def Q2_def
    by (rule fl_small_eqI[where k = 5 and n = "-7070999324150368"]) simp_all
  have p3: "fl (31098 * C) = P3"
    unfolding C_def P3_def
    by (rule fl_small_eqI[where k = 0 and n = "6713908676796180"]) simp_all
  have q3: "fl (P3 - PQ) = Q3"
    unfolding P3_def PQ_def Q3_def
    by (rule fl_small_eqI[where k = 1 and n = "6353579601563920"]) simp_all
  have s1: "fl (Q1 * Q1) = S1"
    unfolding Q1_def S1_def
    by (rule fl_small_eqI[where k = 24 and n = "5252565069702152"]) simp_all
  have s2: "fl (Q2 * Q2) = S2"
    unfolding Q2_def S2_def
    by (rule fl_small_eqI[where k = 9 and n = "5551007591601538"]) simp_all
  have s3: "fl (Q3 * Q3) = S3"
    unfolding Q3_def S3_def
    by (rule fl_small_eqI[where k = 2 and n = "8963490783699766"]) simp_all
  have t: "fl (S1 + S2) = T"
    unfolding S1_def S2_def T_def
    by (rule fl_small_eqI[where k = 9 and n = "5551167887166409"]) simp_all
  have ss: "fl (T + S3) = SS"
    unfolding T_def S3_def SS_def
    by (rule fl_small_eqI[where k = 2 and n = "9006859282818254"]) simp_all
  have v: "fl (1 - SS) = V"
    unfolding SS_def V_def
    by (rule fl_small_eqI[where k = 1 and n = "4503769613331865"]) simp_all
  have m: "fl (sqrt V) = M"
    unfolding V_def M_def
    by (rule fl_sqrt_eqI[where k = 1 and n = "6369171869617580"])
      (simp_all add: power2_eq_square)
  have sc: "int_to_float SCALE = Inr 32767"
    using int_to_float_exact[of 14 32767] by (simp add: SCALE_def)
  have i1: "int_to_float 16389 = Inr 16389"
    using int_to_float_exact[of 14 16389] by simp
  have i2: "int_to_float 15360 = Inr 15360"
    using int_to_float_exact[of 13 15360] by simp
  have i3: "int_to_float 31098 = Inr 31098"
    using int_to_float_exact[of 14 31098] by simp
  have e1: "expand_float_f64 16389 = Inr Q1"
    unfolding expand_float_f64_def by (simp only: sc i1 bind_err_Inr ph pq c p1 q1)
  have e2: "expand_float_f64 15360 = Inr Q2"
    unfolding expand_float_f64_def by (simp only: sc i2 bind_err_Inr ph pq c p2 q2)
  have e3: "expand_float_f64 31098 = Inr Q3"
    unfolding expand_float_f64_def by (simp only: sc i3 bind_err_Inr ph pq c p3 q3)
  have v0: "max V 0 = V" "\<not> V < 0" by (simp_all add: V_def)
  have a: "sqrt_argument_f64 Q1 Q2 Q3 = V"
    unfolding sqrt_argument_f64_def by (simp only: s1 s2 s3 t ss v v0)
  have r: "math_sqrt_f64 V = Inr M"
    unfolding math_sqrt_f64_def by (simp only: v0 m if_False)
  have l: "list_insert [Q1, Q2, Q3] 2 M = [Q1, Q2, M, Q3]"
    by (simp add: list_insert_def)
  have "unpack_48bit_quaternion_f64 42 61442 62196 = Inr [Q3, Q1, Q2, M]"
    unfolding unpack_48bit_quaternion_f64_def Let_def
    by (simp only: known_fields e1 e2 e3 bind_err_Inr a r l rotate_values4 simp_thms if_True)
  then show ?thesis
    unfolding Q1_def Q2_def Q3_def M_def .
qed

lemma known_vector_f64_not_exact:
  "(6353579601563920 / 2 ^ 53 :: real)\<^sup>2 + (4863686882463744 / 2 ^ 64)\<^sup>2 +
   (- (7070999324150368 / 2 ^ 57))\<^sup>2 + (6369171869617580 / 2 ^ 53)\<^sup>2 < 1"
  by (simp add: power2_eq_square)

text \<open>The two ends of the quantised range, in double precision.\<close>

lemma expand_float_f64_endpoints:
  "expand_float_f64 0 = Inr (- (7074237752028440 / 2 ^ 53))"
  "expand_float_f64 32767 = Inr (7074237752028440 / 2 ^ 53)"
  "PI_QUARTER_f64 = 7074237752028440 / 2 ^ 53"
proof -
  define PH :: real where "PH = 7074237752028440 / 2 ^ 52"
  define PQ :: real where "PQ = 7074237752028440 / 2 ^ 53"
  define C :: real where "C = 7074453647220311 / 2 ^ 67"
  have ph: "PI_HALF_f64 = PH"
    unfolding PI_HALF_f64_def math_pi_def PH_def
    by (rule fl_small_eqI[where k = 0 and n = "7074237752028440"]) simp_all
  have pq: "PI_QUARTER_f64 = PQ"
    unfolding PI_QUARTER_f64_def math_pi_def PQ_def
    by (rule fl_small_eqI[where k = 1 and n = "7074237752028440"]) simp_all
  have c: "fl (PH / 32767) = C"
    unfolding PH_def C_def
    by (rule fl_small_eqI[where k = 15 and n = "7074453647220311"]) simp_all
  have sc: "int_to_float SCALE = Inr 32767"
    using int_to_float_exact[of 14 32767] by (simp add: SCALE_def)
  have it: "int_to_float 32767 = Inr 32767"
    using int_to_float_exact[of 14 32767] by simp
  have i0: "int_to_float 0 = Inr 0"
    by (simp add: int_to_float_def fl_def)
  have z: "fl (0 * C) = 0" by (simp add: fl_def)
  have lo: "fl (0 - PQ) = - PQ"
    unfolding PQ_def
    by (rule fl_small_eqI[where k = 1 and n = "- 7074237752028440"]) simp_all
  have top: "fl (32767 * C) = PH"
    unfolding PH_def C_def
    by (rule fl_small_eqI[where k = 0 and n = "7074237752028440"]) simp_all
  have hi: "fl (PH - PQ) = PQ"
    unfolding PH_def PQ_def
    by (rule fl_small_eqI[where k = 1 and n = "7074237752028440"]) simp_all
  have "expand_float_f64 0 = Inr (- PQ)"
    unfolding expand_float_f64_def by (simp only: sc i0 bind_err_Inr ph pq c z lo)
  then show "expand_float_f64 0 = Inr (- (7074237752028440 / 2 ^ 53))"
    unfolding PQ_def .
  have "expand_float_f64 32767 = Inr PQ"
    unfolding expand_float_f64_def by (simp only: sc it bind_err_Inr ph pq c top hi)
  then show "expand_float_f64 32767 = Inr (7074237752028440 / 2 ^ 53)"
    unfolding PQ_def .
  show "PI_QUARTER_f64 = 7074237752028440 / 2 ^ 53"
    using pq unfolding PQ_def .
qed

subsection \<open>The wrapper\<close>












section \<open>Properties of the decoder\<close>

text \<open>
  C1. Whenever the squares of the three expanded values \<open>q1\<close>, \<open>q2\<close>, \<open>q3\<close> sum to at
  most 1, \<open>unpack_48bit_quaternion\<close> returns four components whose squares sum to
  exactly 1 over the reals. The statement holds for every triple of Python integers, so
  in particular for every triple of 16-bit unsigned integers, and it does not depend on
  the sign bit: the example that follows it covers one pack with the bit clear and one
  with the bit set.
\<close>

theorem unpack_unit_norm:
  fixes x y z :: int
  assumes "squared_sum_of (pack_of x y z) \<le> 1"
  shows "\<exists>a b c d. unpack_48bit_quaternion x y z = Inr [a, b, c, d] \<and>
           a\<^sup>2 + b\<^sup>2 + c\<^sup>2 + d\<^sup>2 = 1"
  using assms by (rule unit_norm_aux)

theorem unpack_unit_norm_witness:
  "squared_sum_of (pack_of 42 61442 62196) \<le> 1 \<and>
   \<not> is_negative_of (pack_of 42 61442 62196) \<and>
   (\<exists>a b c d. unpack_48bit_quaternion 42 61442 62196 = Inr [a, b, c, d] \<and>
           a\<^sup>2 + b\<^sup>2 + c\<^sup>2 + d\<^sup>2 = 1) \<and>
   squared_sum_of (pack_of 46 61442 62196) \<le> 1 \<and>
   is_negative_of (pack_of 46 61442 62196) \<and>
   (\<exists>a b c d. unpack_48bit_quaternion 46 61442 62196 = Inr [a, b, c, d] \<and>
           a\<^sup>2 + b\<^sup>2 + c\<^sup>2 + d\<^sup>2 = 1)"
  using unpack_unit_norm[OF known_squared_sum_le(1)]
    unpack_unit_norm[OF known_squared_sum_le(2)]
  by (simp add: known_squared_sum_le known_fields known_fields_negative)

text \<open>
  C2. For every input the argument of \<open>math.sqrt\<close> is non-negative, so the call does
  not raise and returns a non-negative magnitude: 0 when the squared sum of the three
  expanded values exceeds 1, and the square root of 1 minus that sum otherwise. The
  example evaluates one input of each kind.
\<close>

theorem max_component_safe:
  fixes x y z :: int
  shows "0 \<le> sqrt_argument (pack_of x y z) \<and>
    (\<exists>m. max_component_of (pack_of x y z) = Inr m \<and> 0 \<le> m \<and>
       m = (if 1 < squared_sum_of (pack_of x y z) then 0
            else sqrt (1 - squared_sum_of (pack_of x y z))))"
  by (simp add: sqrt_argument_nonneg max_component_of_eq) (simp add: sqrt_argument_alt)

theorem max_component_safe_witness:
  "1 < squared_sum_of (pack_of 0 0 0) \<and> max_component_of (pack_of 0 0 0) = Inr 0 \<and>
   squared_sum_of (pack_of 42 61442 62196) \<le> 1 \<and>
   max_component_of (pack_of 42 61442 62196) =
     Inr (sqrt (1 - pi\<^sup>2 / 16 * (870256371 / 1073676289)))"
  using max_component_safe[of 0 0 0] max_component_safe[of 42 61442 62196]
    zero_squared_sum known_squared_sum_le(1)
  by (auto simp add: known_squared_sum(1))

text \<open>
  C5. For every input, the result is the list \<open>values\<close> as it stands after the
  insertion, rotated to \<open>[values[3], values[0], values[1], values[2]]\<close>; the sign
  bit then decides whether these four entries are returned as they are or negated.
\<close>

theorem output_is_rotation:
  fixes x y z :: int
  shows "\<exists>l0 l1 l2 l3. values_of (pack_of x y z) = Inr [l0, l1, l2, l3] \<and>
     unpack_48bit_quaternion x y z =
       Inr (if is_negative_of (pack_of x y z) then [- l3, - l0, - l1, - l2]
            else [l3, l0, l1, l2])"
  by (simp add: unpack_48bit_quaternion_def Let_def values_of_eq bind_err_def
      rotate_values4 negate_values4)

text \<open>
  C6. \<open>expand_float\<close> maps 0 to \<open>- pi / 4\<close> and 32767 to \<open>pi / 2 - pi / 4 = pi / 4\<close>;
  its scale factor is \<open>pi / 2 / 32767\<close> and not \<open>pi / 2 / 32768\<close>; and for every
  integer \<open>i\<close> from 0 to 32767 the value \<open>expand_float i\<close> is
  \<open>i * (pi / 2 / 32767) - pi / 4\<close> and lies between \<open>- pi / 4\<close> and \<open>pi / 4\<close>.
\<close>

theorem expand_float_domain:
  fixes i :: int
  assumes "0 \<le> i" "i \<le> 32767"
  shows "expand_float 0 = - (pi / 4) \<and> expand_float 32767 = pi / 2 - pi / 4 \<and>
     expand_float 32767 = pi / 4 \<and>
     PI_HALF / of_int SCALE = pi / 2 / 32767 \<and> PI_HALF / of_int SCALE \<noteq> pi / 2 / 32768 \<and>
     expand_float i = of_int i * (pi / 2 / 32767) - pi / 4 \<and>
     - (pi / 4) \<le> expand_float i \<and> expand_float i \<le> pi / 4"
  using expand_float_bounds[OF assms]
  by (simp add: expand_float_def PI_HALF_def PI_QUARTER_def SCALE_def)

theorem expand_float_domain_witness:
  "(0::int) \<le> 16389 \<and> (16389::int) \<le> 32767 \<and>
   expand_float 16389 = 16389 * (pi / 2 / 32767) - pi / 4 \<and>
   - (pi / 4) \<le> expand_float 16389 \<and> expand_float 16389 \<le> pi / 4"
  using expand_float_domain[of 16389] by simp

text \<open>
  C7. \<open>unpack_48bit_quaternion\<close> is total: for every triple of integers, hence for
  every triple of 16-bit unsigned integers, it returns a list of four numbers and raises
  no exception. The example is the all-zero pack, whose three stored values have a squared
  sum above 1.
\<close>

theorem unpack_total:
  fixes x y z :: int
  shows "\<exists>a b c d. unpack_48bit_quaternion x y z = Inr [a, b, c, d]"
  by (simp add: unpack_eq Let_def)

theorem unpack_total_witness:
  "1 < squared_sum_of (pack_of 0 0 0) \<and>
   (\<exists>a b c d. unpack_48bit_quaternion 0 0 0 = Inr [a, b, c, d])"
  using unpack_total[of 0 0 0] zero_squared_sum by simp

text \<open>
  C8. In double precision, the call \<open>unpack_48bit_quaternion(42, 61442, 62196)\<close> of
  line 49 returns four doubles whose squares, added exactly, differ from 1 by less than
  \<open>10\<^sup>-\<^sup>6\<close>. (The sum is not 1: the rounding of the decoder leaves it slightly
  below.)
\<close>

theorem known_vector_unit_norm_f64:
  "\<exists>a b c d. unpack_48bit_quaternion_f64 42 61442 62196 = Inr [a, b, c, d] \<and>
     \<bar>a\<^sup>2 + b\<^sup>2 + c\<^sup>2 + d\<^sup>2 - 1\<bar> < 1 / 10 ^ 6"
proof -
  let ?a = "6353579601563920 / 2 ^ 53 :: real"
  let ?b = "4863686882463744 / 2 ^ 64 :: real"
  let ?c = "- (7070999324150368 / 2 ^ 57) :: real"
  let ?d = "6369171869617580 / 2 ^ 53 :: real"
  have "unpack_48bit_quaternion_f64 42 61442 62196 = Inr [?a, ?b, ?c, ?d]"
    by (rule known_vector_f64)
  moreover have "\<bar>?a\<^sup>2 + ?b\<^sup>2 + ?c\<^sup>2 + ?d\<^sup>2 - 1\<bar> < 1 / 10 ^ 6"
    by (simp add: power2_eq_square)
  ultimately show ?thesis by blast
qed

text \<open>
  C3. For every triple, the call whose pack has bit 2 cleared and the call whose pack has
  bit 2 set (all other bits of the pack the same) return lists that are component-wise
  negations of each other. The first two conjuncts say that clearing or setting bit 2 of
  \<open>x\<close> does exactly that to the reassembled pack.
\<close>

theorem sign_bit_negates:
  fixes x y z :: int
  shows "pack_of (x AND NOT 4) y z = pack_of x y z AND NOT 4 \<and>
     pack_of (x OR 4) y z = pack_of x y z OR 4 \<and>
     (\<exists>a b c d. unpack_48bit_quaternion (x AND NOT 4) y z = Inr [a, b, c, d] \<and>
        unpack_48bit_quaternion (x OR 4) y z = Inr [- a, - b, - c, - d])"
proof -
  define p where "p = pack_of x y z"
  define p0 where "p0 = p AND NOT 4"
  define p1 where "p1 = p OR 4"
  have k: "\<And>n. bit (4::int) n \<Longrightarrow> n < 3" by (simp add: bit_4_iff)
  have c0: "pack_of (x AND NOT 4) y z = p0"
    unfolding p0_def p_def by (rule pack_clear_bit2)
  have c1: "pack_of (x OR 4) y z = p1"
    unfolding p1_def p_def by (rule pack_set_bit)
  have d0: "drop_bit 3 p0 = drop_bit 3 p" unfolding p0_def by (rule drop3_clear[OF k])
  have d1: "drop_bit 3 p1 = drop_bit 3 p" unfolding p1_def by (rule drop3_set[OF k])
  have m0: "missing_component_of p0 = missing_component_of p"
    unfolding p0_def by (rule missing_clear_bit2)
  have m1: "missing_component_of p1 = missing_component_of p"
    unfolding p1_def by (rule missing_set_bit2)
  have n0: "\<not> is_negative_of p0" unfolding p0_def by (rule negative_clear_bit2)
  have n1: "is_negative_of p1" unfolding p1_def by (rule negative_set_bit2)
  have "\<exists>a b c d. unpack_48bit_quaternion (x AND NOT 4) y z = Inr [a, b, c, d] \<and>
        unpack_48bit_quaternion (x OR 4) y z = Inr [- a, - b, - c, - d]"
    unfolding unpack_of_pack[OF c0] unpack_of_pack[OF c1]
    by (simp add: high_bits_determine[OF d0] high_bits_determine[OF d1] m0 m1 n0 n1)
  moreover note c0[unfolded p0_def p_def] c1[unfolded p1_def p_def]
  ultimately show ?thesis by blast
qed

text \<open>
  C4. For every input, \<open>missing_component = pack & 0b11\<close> lies in 0..3, and the list
  \<open>values\<close> after the insertion has four entries, the magnitude at position
  \<open>missing_component\<close> and \<open>q1\<close>, \<open>q2\<close>, \<open>q3\<close> in their order around it. Setting the
  two low bits of the pack to 0, 1, 2 and 3 in turn, all other bits held fixed, puts the
  same magnitude at position 0, 1, 2 and 3 of that list.
\<close>

theorem missing_index_position:
  fixes x y z :: int
  shows "\<exists>m. max_component_of (pack_of x y z) = Inr m \<and>
     (let p = pack_of x y z; k = missing_component_of p;
          v0 = q1_of p; v1 = q2_of p; v2 = q3_of p
      in 0 \<le> k \<and> k \<le> 3 \<and>
         (\<exists>vs. values_of p = Inr vs \<and> length vs = 4 \<and> vs ! nat k = m \<and>
            take (nat k) vs @ drop (Suc (nat k)) vs = [v0, v1, v2]) \<and>
         pack_of ((x AND NOT 3) OR 0) y z = (p AND NOT 3) OR 0 \<and>
         values_of ((p AND NOT 3) OR 0) = Inr [m, v0, v1, v2] \<and>
         pack_of ((x AND NOT 3) OR 1) y z = (p AND NOT 3) OR 1 \<and>
         values_of ((p AND NOT 3) OR 1) = Inr [v0, m, v1, v2] \<and>
         pack_of ((x AND NOT 3) OR 2) y z = (p AND NOT 3) OR 2 \<and>
         values_of ((p AND NOT 3) OR 2) = Inr [v0, v1, m, v2] \<and>
         pack_of ((x AND NOT 3) OR 3) y z = (p AND NOT 3) OR 3 \<and>
         values_of ((p AND NOT 3) OR 3) = Inr [v0, v1, v2, m])"
proof -
  define p where "p = pack_of x y z"
  define m where "m = sqrt (sqrt_argument p)"
  have mc: "max_component_of p = Inr m" by (simp add: m_def max_component_of_eq)
  have k: "0 \<le> missing_component_of p \<and> missing_component_of p \<le> 3"
    using missing_component_cases[of p] by auto
  have vs: "\<exists>vs. values_of p = Inr vs \<and> length vs = 4 \<and> vs ! nat (missing_component_of p) = m \<and>
      take (nat (missing_component_of p)) vs @ drop (Suc (nat (missing_component_of p))) vs
        = [q1_of p, q2_of p, q3_of p]"
    using missing_component_cases[of p] by (auto simp add: values_of_eq m_def)
  have v0: "values_of ((p AND NOT 3) OR 0) = Inr [m, q1_of p, q2_of p, q3_of p]"
    unfolding m_def by (subst values_low2) (simp_all add: list_insert_def)
  have v1: "values_of ((p AND NOT 3) OR 1) = Inr [q1_of p, m, q2_of p, q3_of p]"
    unfolding m_def by (subst values_low2) (simp_all add: list_insert_def)
  have v2: "values_of ((p AND NOT 3) OR 2) = Inr [q1_of p, q2_of p, m, q3_of p]"
    unfolding m_def by (subst values_low2) (simp_all add: list_insert_def)
  have v3: "values_of ((p AND NOT 3) OR 3) = Inr [q1_of p, q2_of p, q3_of p, m]"
    unfolding m_def by (subst values_low2) (simp_all add: list_insert_def)
  have pk: "\<And>k. pack_of ((x AND NOT 3) OR k) y z = (p AND NOT 3) OR k"
    unfolding p_def by (rule pack_low2)
  show ?thesis
    unfolding Let_def p_def[symmetric]
    using mc k vs v0 v1 v2 v3 pk by blast
qed

text \<open>
  C10. When two inputs have packs that agree on every bit from bit 3 upwards, the three
  expanded values and the reconstructed magnitude are the same for both, and the two
  results carry the same multiset of absolute values. Moreover, when the two packs also
  agree on bit 2, the results are permutations of each other (bits 0 and 1 only move the
  magnitude), and when they also agree on bits 0 and 1, the results are equal or
  negations of each other (bit 2 only flips the sign).
\<close>

theorem flag_bits_noninterference:
  fixes x y z x' y' z' :: int
  assumes "drop_bit 3 (pack_of x y z) = drop_bit 3 (pack_of x' y' z')"
  shows "q1_of (pack_of x y z) = q1_of (pack_of x' y' z') \<and>
     q2_of (pack_of x y z) = q2_of (pack_of x' y' z') \<and>
     q3_of (pack_of x y z) = q3_of (pack_of x' y' z') \<and>
     max_component_of (pack_of x y z) = max_component_of (pack_of x' y' z') \<and>
     (\<exists>vs vs'. unpack_48bit_quaternion x y z = Inr vs \<and>
        unpack_48bit_quaternion x' y' z' = Inr vs' \<and>
        mset (map abs vs) = mset (map abs vs') \<and>
        (is_negative_of (pack_of x y z) = is_negative_of (pack_of x' y' z')
           \<longrightarrow> mset vs = mset vs') \<and>
        (missing_component_of (pack_of x y z) = missing_component_of (pack_of x' y' z')
           \<longrightarrow> vs' = vs \<or> vs' = map uminus vs))"
proof -
  define p where "p = pack_of x y z"
  define p' where "p' = pack_of x' y' z'"
  have d: "drop_bit 3 p = drop_bit 3 p'" using assms by (simp add: p_def p'_def)
  note e = high_bits_determine[OF d]
  have u: "unpack_48bit_quaternion x y z = Inr (map (\<lambda>v. if is_negative_of p then - v else v)
       (if missing_component_of p = 0 then [q3_of p, sqrt (sqrt_argument p), q1_of p, q2_of p]
        else if missing_component_of p = 1 then [q3_of p, q1_of p, sqrt (sqrt_argument p), q2_of p]
        else if missing_component_of p = 2 then [q3_of p, q1_of p, q2_of p, sqrt (sqrt_argument p)]
        else [sqrt (sqrt_argument p), q1_of p, q2_of p, q3_of p]))"
    by (rule unpack_of_pack) (simp add: p_def)
  have u': "unpack_48bit_quaternion x' y' z' = Inr (map (\<lambda>v. if is_negative_of p' then - v else v)
       (if missing_component_of p' = 0 then [q3_of p', sqrt (sqrt_argument p'), q1_of p', q2_of p']
        else if missing_component_of p' = 1 then [q3_of p', q1_of p', sqrt (sqrt_argument p'), q2_of p']
        else if missing_component_of p' = 2 then [q3_of p', q1_of p', q2_of p', sqrt (sqrt_argument p')]
        else [sqrt (sqrt_argument p'), q1_of p', q2_of p', q3_of p']))"
    by (rule unpack_of_pack) (simp add: p'_def)
  have "\<exists>vs vs'. unpack_48bit_quaternion x y z = Inr vs \<and>
        unpack_48bit_quaternion x' y' z' = Inr vs' \<and>
        mset (map abs vs) = mset (map abs vs') \<and>
        (is_negative_of p = is_negative_of p' \<longrightarrow> mset vs = mset vs') \<and>
        (missing_component_of p = missing_component_of p' \<longrightarrow> vs' = vs \<or> vs' = map uminus vs)"
    unfolding u u' by (simp add: e)
  then show ?thesis
    using e unfolding p_def p'_def by blast
qed

theorem flag_bits_noninterference_witness:
  "drop_bit 3 (pack_of 42 61442 62196) = drop_bit 3 (pack_of 45 61442 62196) \<and>
   missing_component_of (pack_of 42 61442 62196) = 2 \<and>
   missing_component_of (pack_of 45 61442 62196) = 1 \<and>
   \<not> is_negative_of (pack_of 42 61442 62196) \<and>
   is_negative_of (pack_of 45 61442 62196) \<and>
   q1_of (pack_of 42 61442 62196) = q1_of (pack_of 45 61442 62196) \<and>
   q2_of (pack_of 42 61442 62196) = q2_of (pack_of 45 61442 62196) \<and>
   q3_of (pack_of 42 61442 62196) = q3_of (pack_of 45 61442 62196) \<and>
   max_component_of (pack_of 42 61442 62196) = max_component_of (pack_of 45 61442 62196) \<and>
   (\<exists>vs vs'. unpack_48bit_quaternion 42 61442 62196 = Inr vs \<and>
        unpack_48bit_quaternion 45 61442 62196 = Inr vs' \<and>
        mset (map abs vs) = mset (map abs vs'))"
proof -
  have h: "drop_bit 3 (pack_of 42 61442 62196) = drop_bit 3 (pack_of 45 61442 62196)"
    by (simp only: known_fields_45(1))
  show ?thesis
    using flag_bits_noninterference[OF h] h
    by (simp only: known_fields known_fields_45 simp_thms) blast
qed

section \<open>Properties of the wrapper\<close>




end
